theory Spec2Isabelle
  imports Complex_Main "HOL-Library.Word"
begin

section \<open>The recording widget of \<^verbatim>\<open>src/components/RecordingModule.tsx\<close>\<close>

text \<open>
  The component is a React function component: its \<^verbatim>\<open>useState\<close> variables, its
  \<^verbatim>\<open>useRef\<close> cells and the browser objects it drives (media streams, recorders, audio
  contexts, timers, promises) are gathered in one state record, and every handler,
  effect and callback of the source is a function on that record.
\<close>

subsection \<open>\<^verbatim>\<open>formatTime\<close> (lines 208-218)\<close>

text \<open>
  The source computes on IEEE 754 doubles. The number of seconds is a non-negative
  integer that is a double: below \<open>2 ^ 53\<close> every integer is one, above only those whose
  significand fits 53 bits.
\<close>

fun bit_length :: "nat \<Rightarrow> nat" where
  "bit_length n = (if n = 0 then 0 else Suc (bit_length (n div 2)))"

declare bit_length.simps [simp del]

definition is_double :: "nat \<Rightarrow> bool" where
  "is_double n = (n mod 2 ^ (bit_length n - 53) = 0)"

text \<open>Rounding the quotient \<open>n / d\<close> to the nearest integer, a tie to the even one.\<close>

definition round_half_even :: "nat \<Rightarrow> nat \<Rightarrow> nat" where
  "round_half_even n d =
     (let k = n div d; r = n mod d
      in if 2 * r < d then k else if d < 2 * r then k + 1 else if even k then k else k + 1)"

text \<open>
  The division \<^verbatim>\<open>a / b\<close> of two integer-valued doubles, \<open>b\<close> positive: the exact
  quotient rounded to the nearest double, a tie to the even significand. The result
  \<open>(m, e)\<close> stands for \<open>m * 2 ^ e\<close>, with \<open>m\<close> the 53-bit significand; \<open>e0\<close> is the
  exponent of the quotient, the integer with \<open>2 ^ e0 \<le> a / b < 2 ^ (e0 + 1)\<close>. The
  source divides by 3600 and by 60 only, where no quotient overflows or is subnormal.
\<close>

definition double_div :: "nat \<Rightarrow> nat \<Rightarrow> nat \<times> int" where
  "double_div a b =
     (if a = 0 then (0, 0)
      else let d = int (bit_length a) - int (bit_length b);
               e0 = (if (if 0 \<le> d then b * 2 ^ nat d \<le> a else b \<le> a * 2 ^ nat (- d)) then d else d - 1);
               e = e0 - 52
           in if e \<le> 0 then (round_half_even (a * 2 ^ nat (- e)) b, e)
              else (round_half_even a (b * 2 ^ nat e), e))"

text \<open>\<^verbatim>\<open>Math.floor\<close> of the non-negative double \<open>m * 2 ^ e\<close>.\<close>

definition Math_floor :: "nat \<times> int \<Rightarrow> nat" where
  "Math_floor x = (case x of (m, e) \<Rightarrow> if e \<le> 0 then m div 2 ^ nat (- e) else m * 2 ^ nat e)"

text \<open>The decimal digits of a number, most significant first, no leading zero.\<close>

definition digit_char :: "nat \<Rightarrow> char" where
  "digit_char d = char_of (48 + d)"

fun digits :: "nat \<Rightarrow> string" where
  "digits n = (if n < 10 then [digit_char n] else digits (n div 10) @ [digit_char (n mod 10)])"

declare digits.simps [simp del]

text \<open>
  \<^verbatim>\<open>Number.prototype.toString\<close> on a non-negative integer-valued double. Below \<open>2 ^ 53\<close>
  it prints the decimal digits of the number. From there on it prints the shortest
  digits that read back as the same double, filled up with zeros, and from \<open>10 ^ 21\<close> on
  exponent notation; what it prints there is left open: it is the parameter \<open>large\<close>.
\<close>

definition toString :: "(nat \<Rightarrow> string) \<Rightarrow> nat \<Rightarrow> string" where
  "toString large n = (if n < 2 ^ 53 then digits n else large n)"

text \<open>
  \<^verbatim>\<open>String.prototype.padStart(targetLength, padString)\<close>: the string itself when it is
  long enough or the pad is empty, otherwise the pad repeated and cut to fill the gap.
\<close>

definition padStart :: "nat \<Rightarrow> string \<Rightarrow> string \<Rightarrow> string" where
  "padStart targetLength padString str =
     (if targetLength \<le> length str \<or> padString = [] then str
      else take (targetLength - length str)
             (concat (replicate (targetLength - length str) padString)) @ str)"

text \<open>
  \<^verbatim>\<open>formatTime\<close> on a number of seconds that is a non-negative integer-valued double.
  \<^verbatim>\<open>%\<close> on doubles is exact, so \<^verbatim>\<open>seconds % 3600\<close> and \<^verbatim>\<open>seconds % 60\<close> are the
  remainders, integers; the two divisions round.
\<close>

definition formatTime :: "(nat \<Rightarrow> string) \<Rightarrow> nat \<Rightarrow> string" where
  "formatTime large seconds =
     (let hrs = Math_floor (double_div seconds 3600);
          mins = Math_floor (double_div (seconds mod 3600) 60);
          secs = Math_floor (seconds mod 60, 0);
          paddedHrs = padStart 2 ''0'' (toString large hrs);
          paddedMins = padStart 2 ''0'' (toString large mins);
          paddedSecs = padStart 2 ''0'' (toString large secs)
      in paddedHrs @ '':'' @ paddedMins @ '':'' @ paddedSecs)"

text \<open>Reading a field back: it is made of decimal digits, and it has a value.\<close>

definition is_digit :: "char \<Rightarrow> bool" where
  "is_digit c = (48 \<le> (of_char c :: nat) \<and> (of_char c :: nat) \<le> 57)"

definition dec_value :: "string \<Rightarrow> nat" where
  "dec_value str = foldl (\<lambda>acc c. 10 * acc + (of_char c - 48)) 0 str"

subsection \<open>Data: devices, blobs, recorders\<close>

type_synonym byte = "8 word"

datatype MediaDeviceKind = videoinput | audioinput | audiooutput

record MediaDeviceInfo =
  deviceId :: string
  kind :: MediaDeviceKind
  label :: string

text \<open>
  A \<^verbatim>\<open>BlobPart\<close> is read as the bytes it holds, and \<^verbatim>\<open>new Blob(parts, {type})\<close> is
  the concatenation of its parts in order, tagged with the type.
\<close>

type_synonym BlobPart = "byte list"

record Blob =
  blob_data :: "byte list"
  blob_type :: string

definition new_Blob :: "BlobPart list \<Rightarrow> string \<Rightarrow> Blob" where
  "new_Blob parts ty = \<lparr>blob_data = concat parts, blob_type = ty\<rparr>"

text \<open>
  A \<^verbatim>\<open>MediaRecorder\<close> object: the stream it was built on, its \<^verbatim>\<open>state\<close> attribute
  (the source never pauses, so \<^verbatim>\<open>paused\<close> does not occur), whether a \<^verbatim>\<open>stop()\<close> has
  queued its finalisation task (the task that fires \<^verbatim>\<open>onstop\<close>) and has not run it yet,
  and the address of the \<^verbatim>\<open>chunks\<close> array that the \<^verbatim>\<open>ondataavailable\<close> and \<^verbatim>\<open>onstop\<close>
  closures installed at lines 142-148 captured.
\<close>

datatype RecordingState = inactive | recording_state

record MediaRecorder =
  rec_stream :: nat
  rec_state :: RecordingState
  rec_stop_queued :: bool
  rec_chunks :: nat

subsection \<open>The state of the component and of the browser objects it drives\<close>

text \<open>
  The first group are the \<^verbatim>\<open>useState\<close> variables of lines 4-15 (\<^verbatim>\<open>videoSrc\<close>, which only
  the playback URL effect of lines 193-206 touches, is left out with that effect), the
  second the \<^verbatim>\<open>useRef\<close> cells of lines 16-18 (\<^verbatim>\<open>analyserRef\<close> is written once and never
  read, and is left out), then the \<^verbatim>\<open>chunks\<close> array of line 20, which every render
  creates anew, as an address into a store of arrays. The rest is the browser: which
  streams have live tracks, the recorder objects, the audio contexts that are not
  closed, the analysers whose animation-frame loop runs, the promises and timers that
  are pending, and the console. Streams, recorders, contexts and arrays are named by
  numbers; a counter gives the next fresh one.
\<close>

record component =
  mediaStream :: "nat option"
  videoDevices :: "MediaDeviceInfo list"
  audioDevices :: "MediaDeviceInfo list"
  recordingTime :: int
  volume :: real
  selectedVideoDevice :: string
  selectedAudioDevice :: string
  recording :: bool
  isSubmit :: bool
  recordedVideo :: "Blob option"
  countdown :: int
  videoRef :: "nat option option"
  mediaRecorderRef :: "nat option"
  audioContextRef :: "nat option"
  chunks :: nat
  chunkArrays :: "nat \<Rightarrow> BlobPart list"
  nextChunks :: nat
  recorders :: "nat \<Rightarrow> MediaRecorder"
  nextRecorder :: nat
  liveStreams :: "nat set"
  nextStream :: nat
  runningContexts :: "nat set"
  nextContext :: nat
  volumeLoops :: "nat set"
  pendingGetUserMedia :: "(string \<times> string) list"
  pendingEnumerate :: "(string \<times> string) list"
  startTimeouts :: nat
  elapsedIntervals :: nat
  countdownInterval :: bool
  console :: "string list"

text \<open>
  A handler, effect or callback is created by one render and reads the state variables
  of that render, whatever has been set since: it takes that render's state as its first
  argument \<open>c\<close> (only the \<^verbatim>\<open>useState\<close> fields and \<open>chunks\<close> of \<open>c\<close> are read) and the current
  state \<open>s\<close> as its second; refs and browser objects are read from \<open>s\<close>, and every
  \<^verbatim>\<open>setX(v)\<close> writes \<open>s\<close>. A function that reads no state variable takes \<open>s\<close> alone.
\<close>

subsection \<open>Browser operations the source calls\<close>

text \<open>\<^verbatim>\<open>stream.getTracks().forEach((track) => track.stop())\<close>: the stream holds no device any more.\<close>

definition stop_tracks :: "nat \<Rightarrow> component \<Rightarrow> component" where
  "stop_tracks m s = s\<lparr>liveStreams := liveStreams s - {m}\<rparr>"

text \<open>
  \<^verbatim>\<open>MediaRecorder.stop()\<close>: nothing on an inactive recorder; otherwise the recorder becomes
  inactive and the task that delivers the last data and fires \<^verbatim>\<open>onstop\<close> is queued.
\<close>

definition recorder_stop :: "nat \<Rightarrow> component \<Rightarrow> component" where
  "recorder_stop r s =
     (if rec_state (recorders s r) = inactive then s
      else s\<lparr>recorders := (recorders s)(r := (recorders s r)\<lparr>rec_state := inactive, rec_stop_queued := True\<rparr>)\<rparr>)"

text \<open>\<^verbatim>\<open>MediaRecorder.start()\<close>: throws (\<open>None\<close>) unless the recorder is inactive.\<close>

definition recorder_start :: "nat \<Rightarrow> component \<Rightarrow> component option" where
  "recorder_start r s =
     (if rec_state (recorders s r) \<noteq> inactive then None
      else Some (s\<lparr>recorders := (recorders s)(r := (recorders s r)\<lparr>rec_state := recording_state\<rparr>)\<rparr>))"

text \<open>\<^verbatim>\<open>AudioContext.close()\<close>; on a closed context the promise it returns rejects and nothing changes.\<close>

definition close_context :: "nat \<Rightarrow> component \<Rightarrow> component" where
  "close_context a s = s\<lparr>runningContexts := runningContexts s - {a}\<rparr>"

subsection \<open>\<^verbatim>\<open>handlePermission\<close> (lines 63-77)\<close>

text \<open>
  Up to its \<^verbatim>\<open>await\<close>: the call of \<^verbatim>\<open>getUserMedia\<close> with the device pair of the render
  that created the handler. The request is pending until the browser settles it.
\<close>

definition handlePermission :: "component \<Rightarrow> component \<Rightarrow> component" where
  "handlePermission c s =
     s\<lparr>pendingGetUserMedia := pendingGetUserMedia s @ [(selectedVideoDevice c, selectedAudioDevice c)]\<rparr>"

text \<open>After the \<^verbatim>\<open>await\<close>, when the promise resolved with a stream (lines 70-73).\<close>

definition handlePermission_then :: "nat \<Rightarrow> component \<Rightarrow> component" where
  "handlePermission_then stream s =
     (let s1 = s\<lparr>mediaStream := Some stream\<rparr>
      in case videoRef s1 of None \<Rightarrow> s1 | Some _ \<Rightarrow> s1\<lparr>videoRef := Some (Some stream)\<rparr>)"

text \<open>The \<^verbatim>\<open>catch\<close> branch (lines 74-76).\<close>

definition handlePermission_catch :: "string \<Rightarrow> component \<Rightarrow> component" where
  "handlePermission_catch err s = s\<lparr>console := console s @ [''Permission denied'']\<rparr>"

text \<open>
  The browser settles the oldest pending request: it rejects it, or creates a stream
  with live tracks and resolves the promise with it.
\<close>

datatype outcome = Granted | Denied string

definition getUserMedia_settle :: "outcome \<Rightarrow> component \<Rightarrow> component" where
  "getUserMedia_settle out s =
     (case pendingGetUserMedia s of
        [] \<Rightarrow> s
      | req # rest \<Rightarrow>
          (case out of
             Denied err \<Rightarrow> handlePermission_catch err (s\<lparr>pendingGetUserMedia := rest\<rparr>)
           | Granted \<Rightarrow>
               handlePermission_then (nextStream s)
                 (s\<lparr>pendingGetUserMedia := rest, nextStream := Suc (nextStream s),
                    liveStreams := insert (nextStream s) (liveStreams s)\<rparr>)))"

subsection \<open>\<^verbatim>\<open>stopRecording\<close> (lines 177-181), \<^verbatim>\<open>denyMediaPermissions\<close> (lines 79-99), \<^verbatim>\<open>handleDeviceChange\<close> (lines 101-108)\<close>

definition stopRecording :: "component \<Rightarrow> component" where
  "stopRecording s =
     (let s1 = (case mediaRecorderRef s of None \<Rightarrow> s | Some r \<Rightarrow> recorder_stop r s)
      in s1\<lparr>recording := False, recordingTime := 0\<rparr>)"

definition denyMediaPermissions :: "component \<Rightarrow> component \<Rightarrow> component" where
  "denyMediaPermissions c s =
     (let s1 = (case mediaStream c of None \<Rightarrow> s | Some m \<Rightarrow> stop_tracks m s);
          s2 = (case mediaRecorderRef s1 of
                  None \<Rightarrow> s1
                | Some r \<Rightarrow> (recorder_stop r s1)\<lparr>mediaRecorderRef := None\<rparr>);
          s3 = s2\<lparr>recording := False, recordingTime := 0\<rparr>;
          s4 = (case audioContextRef s3 of None \<Rightarrow> s3 | Some a \<Rightarrow> close_context a s3)
      in s4\<lparr>mediaStream := None\<rparr>)"

definition handleDeviceChange :: "component \<Rightarrow> component \<Rightarrow> component" where
  "handleDeviceChange c s =
     (let s1 = (case mediaStream c of
                  None \<Rightarrow> s
                | Some m \<Rightarrow> (stop_tracks m s)\<lparr>mediaStream := None\<rparr>);
          s2 = stopRecording s1
      in handlePermission c s2)"

text \<open>
  The \<^verbatim>\<open>onChange\<close> handlers of the two selectors (JSX, lines 269-272 and 286-289):
  \<^verbatim>\<open>setSelectedVideoDevice(e.target.value); handleDeviceChange();\<close>.
\<close>

definition onChangeVideo :: "string \<Rightarrow> component \<Rightarrow> component \<Rightarrow> component" where
  "onChangeVideo v c s = handleDeviceChange c (s\<lparr>selectedVideoDevice := v\<rparr>)"

definition onChangeAudio :: "string \<Rightarrow> component \<Rightarrow> component \<Rightarrow> component" where
  "onChangeAudio v c s = handleDeviceChange c (s\<lparr>selectedAudioDevice := v\<rparr>)"

subsection \<open>\<^verbatim>\<open>setupAudioProcessing\<close> and \<^verbatim>\<open>updateVolume\<close> (lines 110-135)\<close>

definition fftSize :: nat where
  "fftSize = 256"

text \<open>\<^verbatim>\<open>analyser.frequencyBinCount\<close> is half the FFT size; it is the length of \<^verbatim>\<open>dataArray\<close>.\<close>

definition bufferLength :: nat where
  "bufferLength = fftSize div 2"

text \<open>
  One iteration of the sampling loop, \<open>dataArray\<close> being the \<^verbatim>\<open>Uint8Array\<close> after
  \<^verbatim>\<open>getByteFrequencyData\<close> filled it. The sum of at most 128 bytes and its quotient by
  128 are exact in double arithmetic, so the number published is this real.
  \<^verbatim>\<open>requestAnimationFrame(updateVolume)\<close> keeps the loop running: nothing to change.
\<close>

definition updateVolume :: "byte list \<Rightarrow> component \<Rightarrow> component" where
  "updateVolume dataArray s =
     (let sum = foldl (\<lambda>a b. a + real (unat b)) 0 dataArray;
          average = sum / real (length dataArray)
      in s\<lparr>volume := average\<rparr>)"

text \<open>
  \<^verbatim>\<open>setupAudioProcessing\<close>: close the context the ref holds, build a new context with an
  analyser, and call \<^verbatim>\<open>updateVolume\<close> at once. At that first call the analyser has not
  processed any audio yet and reports silence, a zero in every bin.
\<close>

definition setupAudioProcessing :: "nat \<Rightarrow> component \<Rightarrow> component" where
  "setupAudioProcessing stream s =
     (let s1 = (case audioContextRef s of None \<Rightarrow> s | Some a \<Rightarrow> close_context a s);
          a = nextContext s1;
          s2 = s1\<lparr>nextContext := Suc a, runningContexts := insert a (runningContexts s1),
                 audioContextRef := Some a, volumeLoops := insert a (volumeLoops s1)\<rparr>
      in updateVolume (replicate bufferLength 0) s2)"

subsection \<open>\<^verbatim>\<open>startRecording\<close> (lines 137-160) and the callbacks it installs\<close>

text \<open>
  \<^verbatim>\<open>setCountdown(3)\<close> comes first, outside the test of \<^verbatim>\<open>mediaStream\<close>. With a stream, a
  new recorder replaces the one in the ref, its two callbacks capture the \<^verbatim>\<open>chunks\<close>
  array of the render, and a 3000 ms timeout is set.
\<close>

definition startRecording :: "component \<Rightarrow> component \<Rightarrow> component" where
  "startRecording c s =
     (let s1 = s\<lparr>countdown := 3\<rparr>
      in case mediaStream c of
           None \<Rightarrow> s1
         | Some m \<Rightarrow>
             s1\<lparr>recorders := (recorders s1)(nextRecorder s1 :=
                    \<lparr>rec_stream = m, rec_state = inactive, rec_stop_queued = False, rec_chunks = chunks c\<rparr>),
                mediaRecorderRef := Some (nextRecorder s1),
                nextRecorder := Suc (nextRecorder s1),
                startTimeouts := Suc (startTimeouts s1)\<rparr>)"

text \<open>\<^verbatim>\<open>ondataavailable\<close>: \<^verbatim>\<open>chunks.push(event.data)\<close>, on the array at address \<open>a\<close>.\<close>

definition ondataavailable :: "nat \<Rightarrow> BlobPart \<Rightarrow> component \<Rightarrow> component" where
  "ondataavailable a d s = s\<lparr>chunkArrays := (chunkArrays s)(a := chunkArrays s a @ [d])\<rparr>"

text \<open>\<^verbatim>\<open>onstop\<close> (lines 144-148).\<close>

definition onstop :: "nat \<Rightarrow> component \<Rightarrow> component" where
  "onstop a s =
     (let blob = new_Blob (chunkArrays s a) ''video/webm''
      in s\<lparr>recordedVideo := Some blob, chunkArrays := (chunkArrays s)(a := [])\<rparr>)"

text \<open>
  The callback of the 3000 ms timeout (lines 150-158). The interval it sets is never
  cleared. \<^verbatim>\<open>mediaRecorderRef.current?.start()\<close> throws on a recorder that is not
  inactive, and then \<^verbatim>\<open>setRecording(true)\<close> is not reached.
\<close>

definition startTimeout :: "component \<Rightarrow> component" where
  "startTimeout s =
     (let s1 = s\<lparr>recordingTime := 0, elapsedIntervals := Suc (elapsedIntervals s)\<rparr>
      in case mediaRecorderRef s1 of
           None \<Rightarrow> s1\<lparr>recording := True\<rparr>
         | Some r \<Rightarrow>
             (case recorder_start r s1 of
                None \<Rightarrow> s1
              | Some s2 \<Rightarrow> s2\<lparr>recording := True\<rparr>))"

text \<open>The callback of that interval: \<^verbatim>\<open>setRecordingTime((prevTime) => prevTime + 1)\<close>.\<close>

definition elapsedTick :: "component \<Rightarrow> component" where
  "elapsedTick s = s\<lparr>recordingTime := recordingTime s + 1\<rparr>"

subsection \<open>\<^verbatim>\<open>handleSubmit\<close> (lines 183-191)\<close>

definition handleSubmit :: "component \<Rightarrow> component \<Rightarrow> component" where
  "handleSubmit c s =
     (case recordedVideo c of
        None \<Rightarrow> s
      | Some b \<Rightarrow>
          (let s1 = stopRecording s;
               s2 = s1\<lparr>isSubmit := True\<rparr>;
               s3 = denyMediaPermissions c s2
           in s3\<lparr>console := console s3 @ [''Recorded video saved:'']\<rparr>))"

subsection \<open>The effects\<close>

text \<open>
  Lines 22-49. With a stream, \<^verbatim>\<open>enumerateDevices()\<close> is called and its \<^verbatim>\<open>then\<close> callback
  keeps the selections of this render; without one, both lists are emptied.
\<close>

definition devicesEffect :: "component \<Rightarrow> component \<Rightarrow> component" where
  "devicesEffect c s =
     (case mediaStream c of
        Some m \<Rightarrow> s\<lparr>pendingEnumerate := pendingEnumerate s @ [(selectedVideoDevice c, selectedAudioDevice c)]\<rparr>
      | None \<Rightarrow> s\<lparr>audioDevices := [], videoDevices := []\<rparr>)"

text \<open>
  The \<^verbatim>\<open>then\<close> callback (lines 24-44), \<open>selV\<close> and \<open>selA\<close> being the selections it
  captured. \<^verbatim>\<open>a || b\<close> on strings is \<open>b\<close> when \<open>a\<close> is the empty string, and
  \<^verbatim>\<open>videoDevices[0]\<close> is read only when the list is not empty.
\<close>

definition enumerate_then :: "string \<times> string \<Rightarrow> MediaDeviceInfo list \<Rightarrow> component \<Rightarrow> component" where
  "enumerate_then sel devices s =
     (let vds = filter (\<lambda>device. kind device = videoinput) devices;
          ads = filter (\<lambda>device. kind device = audioinput) devices;
          s1 = s\<lparr>videoDevices := vds, audioDevices := ads\<rparr>;
          s2 = (case vds of
                  [] \<Rightarrow> s1
                | d # _ \<Rightarrow> s1\<lparr>selectedVideoDevice := (if fst sel \<noteq> [] then fst sel else deviceId d)\<rparr>)
      in case ads of
           [] \<Rightarrow> s2
         | d # _ \<Rightarrow> s2\<lparr>selectedAudioDevice := (if snd sel \<noteq> [] then snd sel else deviceId d)\<rparr>)"

text \<open>Lines 51-55.\<close>

definition audioEffect :: "component \<Rightarrow> component \<Rightarrow> component" where
  "audioEffect c s = (case mediaStream c of None \<Rightarrow> s | Some m \<Rightarrow> setupAudioProcessing m s)"

text \<open>Lines 57-61.\<close>

definition selectionEffect :: "component \<Rightarrow> component \<Rightarrow> component" where
  "selectionEffect c s =
     (if selectedAudioDevice c \<noteq> [] \<and> selectedVideoDevice c \<noteq> [] \<and> mediaStream c \<noteq> None
      then handlePermission c s else s)"

text \<open>
  Lines 162-175. The cleanup of the previous run clears the interval it had set; the
  new run returns at once when the countdown is not positive and sets a one-second
  interval otherwise.
\<close>

definition countdownEffect :: "component \<Rightarrow> component \<Rightarrow> component" where
  "countdownEffect c s =
     (let s1 = s\<lparr>countdownInterval := False\<rparr>
      in if countdown c \<le> 0 then s1 else s1\<lparr>countdownInterval := True\<rparr>)"

text \<open>The callback of that interval: \<^verbatim>\<open>setCountdown((prevCountdown) => prevCountdown - 1)\<close>.\<close>

definition countdownTick :: "component \<Rightarrow> component" where
  "countdownTick s = s\<lparr>countdown := countdown s - 1\<rparr>"

subsection \<open>Rendering\<close>

text \<open>
  React applies the updates a handler made when the handler returns, and renders again
  unless every state variable is identical to what it was. A render runs the component
  function, so line 20 creates a new empty \<^verbatim>\<open>chunks\<close> array; then the effects run in
  source order, each one only if one of its dependencies differs from the previous
  render. An effect that sets state (lines 46-47, and line 131 through line 53) causes
  one more render, which changes no dependency.
\<close>

definition react_state ::
  "component \<Rightarrow> nat option \<times> MediaDeviceInfo list \<times> MediaDeviceInfo list \<times> int \<times> real \<times> string \<times> string
     \<times> bool \<times> bool \<times> Blob option \<times> int" where
  "react_state s =
     (mediaStream s, videoDevices s, audioDevices s, recordingTime s, volume s,
      selectedVideoDevice s, selectedAudioDevice s, recording s, isSubmit s, recordedVideo s,
      countdown s)"

definition render :: "component \<Rightarrow> component" where
  "render s =
     s\<lparr>chunks := nextChunks s, chunkArrays := (chunkArrays s)(nextChunks s := []),
       nextChunks := Suc (nextChunks s)\<rparr>"

definition rerender :: "component \<Rightarrow> component \<Rightarrow> component" where
  "rerender pre post =
     (let c = render post;
          s1 = (if mediaStream c \<noteq> mediaStream pre then audioEffect c (devicesEffect c c) else c);
          s2 = (if selectedVideoDevice c \<noteq> selectedVideoDevice pre
                   \<or> selectedAudioDevice c \<noteq> selectedAudioDevice pre
                then selectionEffect c s1 else s1);
          s3 = (if countdown c \<noteq> countdown pre then countdownEffect c s2 else s2)
      in if (mediaStream c \<noteq> mediaStream pre \<and> mediaStream c = None) \<or> react_state s3 \<noteq> react_state c
         then render s3 else s3)"

definition commit :: "component \<Rightarrow> component \<Rightarrow> component" where
  "commit pre post = (if react_state post = react_state pre then post else rerender pre post)"

subsection \<open>Events\<close>

text \<open>
  What can happen to a mounted component: a click on a control that the JSX of lines
  220-331 renders in the current state, the settling of a pending promise, the firing of
  a pending timer, an event of a recorder, an animation frame of a running sampling
  loop. An event that is not enabled leaves the state as it is. A click handler is the
  one the last render created, so it reads the current state. Setting a list or a blob
  state variable stores a new object, which always renders again.
\<close>

datatype event =
    ClickAskPermission
  | GetUserMediaSettled outcome
  | EnumerateResolved "MediaDeviceInfo list"
  | ChangeVideo string
  | ChangeAudio string
  | ClickRecordButton
  | ClickSubmit
  | StartTimeoutFired
  | ElapsedTick
  | CountdownTick
  | DataAvailable nat BlobPart
  | RecorderStopped nat
  | AnimationFrame nat "byte list"

fun fire :: "event \<Rightarrow> component \<Rightarrow> component" where
  "fire ClickAskPermission s =
     (if mediaStream s = None then commit s (handlePermission s s) else s)"
| "fire (GetUserMediaSettled out) s = commit s (getUserMedia_settle out s)"
| "fire (EnumerateResolved devices) s =
     (case pendingEnumerate s of
        [] \<Rightarrow> s
      | sel # rest \<Rightarrow> rerender s (enumerate_then sel devices (s\<lparr>pendingEnumerate := rest\<rparr>)))"
| "fire (ChangeVideo v) s = commit s (onChangeVideo v s s)"
| "fire (ChangeAudio v) s = commit s (onChangeAudio v s s)"
| "fire ClickRecordButton s =
     (if mediaStream s = None then s
      else commit s (if \<not> recording s then startRecording s s else stopRecording s))"
| "fire ClickSubmit s =
     (if mediaStream s = None then s else commit s (handleSubmit s s))"
| "fire StartTimeoutFired s =
     (if startTimeouts s = 0 then s
      else commit s (startTimeout (s\<lparr>startTimeouts := startTimeouts s - 1\<rparr>)))"
| "fire ElapsedTick s =
     (if elapsedIntervals s = 0 then s else commit s (elapsedTick s))"
| "fire CountdownTick s =
     (if countdownInterval s then commit s (countdownTick s) else s)"
| "fire (DataAvailable r d) s =
     (if r < nextRecorder s \<and> (rec_state (recorders s r) = recording_state \<or> rec_stop_queued (recorders s r))
      then ondataavailable (rec_chunks (recorders s r)) d s else s)"
| "fire (RecorderStopped r) s =
     (if r < nextRecorder s \<and> rec_stop_queued (recorders s r)
      then rerender s (onstop (rec_chunks (recorders s r))
                         (s\<lparr>recorders := (recorders s)(r := (recorders s r)\<lparr>rec_stop_queued := False\<rparr>)\<rparr>))
      else s)"
| "fire (AnimationFrame a dataArray) s =
     (if a \<in> volumeLoops s \<and> length dataArray = bufferLength
      then commit s (updateVolume dataArray s) else s)"

fun run :: "event list \<Rightarrow> component \<Rightarrow> component" where
  "run [] s = s"
| "run (e # es) s = run es (fire e s)"

text \<open>The component once mounted: the initial values of lines 4-20, nothing pending.\<close>

definition init :: component where
  "init =
     \<lparr>mediaStream = None, videoDevices = [], audioDevices = [], recordingTime = 0, volume = 0,
      selectedVideoDevice = [], selectedAudioDevice = [], recording = False, isSubmit = False,
      recordedVideo = None, countdown = 0, videoRef = Some None, mediaRecorderRef = None,
      audioContextRef = None, chunks = 0, chunkArrays = (\<lambda>a. []), nextChunks = 1,
      recorders = (\<lambda>r. \<lparr>rec_stream = 0, rec_state = inactive, rec_stop_queued = False, rec_chunks = 0\<rparr>),
      nextRecorder = 0, liveStreams = {}, nextStream = 0, runningContexts = {}, nextContext = 0,
      volumeLoops = {}, pendingGetUserMedia = [], pendingEnumerate = [], startTimeouts = 0,
      elapsedIntervals = 0, countdownInterval = False, console = []\<rparr>"

subsection \<open>What rendering leaves alone\<close>

text \<open>
  The fields that neither a render nor any effect writes, and the invariant that ties the
  countdown interval to the countdown.
\<close>

definition core ::
  "component \<Rightarrow> nat option \<times> int \<times> string \<times> string \<times> bool \<times> bool \<times> Blob option \<times> int
     \<times> nat option option \<times> nat option \<times> (nat \<Rightarrow> MediaRecorder) \<times> nat \<times> nat set \<times> nat \<times> nat \<times> nat
     \<times> string list" where
  "core s =
     (mediaStream s, recordingTime s, selectedVideoDevice s, selectedAudioDevice s,
      recording s, isSubmit s, recordedVideo s, countdown s, videoRef s, mediaRecorderRef s,
      recorders s, nextRecorder s, liveStreams s, nextStream s, startTimeouts s,
      elapsedIntervals s, console s)"

definition countdown_inv :: "component \<Rightarrow> bool" where
  "countdown_inv s = (0 \<le> countdown s \<and> countdownInterval s = (0 < countdown s))"

subsection \<open>Scenarios\<close>

text \<open>Two cameras and a microphone, as \<^verbatim>\<open>enumerateDevices\<close> reports them.\<close>

definition devs :: "MediaDeviceInfo list" where
  "devs =
     [\<lparr>deviceId = ''camA'', kind = videoinput, label = ''A''\<rparr>,
      \<lparr>deviceId = ''mic'', kind = audioinput, label = ''M''\<rparr>,
      \<lparr>deviceId = ''camB'', kind = videoinput, label = ''B''\<rparr>]"

text \<open>
  A live session: permission asked and granted, the devices enumerated, the default
  selection made, which the effect of lines 57-61 answers with a second request, granted
  and enumerated in its turn.
\<close>

definition live :: component where
  "live =
     run [ClickAskPermission, GetUserMediaSettled Granted, EnumerateResolved devs,
          GetUserMediaSettled Granted, EnumerateResolved devs] init"

text \<open>
  The same session before its second enumeration has resolved: the lists and the
  selection are those of the first enumeration.
\<close>

definition enumerating :: component where
  "enumerating =
     run [ClickAskPermission, GetUserMediaSettled Granted, EnumerateResolved devs,
          GetUserMediaSettled Granted] init"

text \<open>A session one second into the countdown.\<close>

definition counting :: component where
  "counting =
     run [ClickAskPermission, GetUserMediaSettled Granted, ClickRecordButton, CountdownTick] init"

text \<open>
  A session whose countdown has run down and whose start timeout is about to fire, and
  the same session two seconds into the recording.
\<close>

definition armed :: component where
  "armed =
     run [ClickAskPermission, GetUserMediaSettled Granted, ClickRecordButton,
          CountdownTick, CountdownTick, CountdownTick] init"

definition rolling :: component where
  "rolling = run [StartTimeoutFired, ElapsedTick, ElapsedTick] armed"

text \<open>A session whose recording has just been stopped: the recorder's finalisation is queued.\<close>

definition stopping :: component where
  "stopping =
     run [ClickAskPermission, GetUserMediaSettled Granted, ClickRecordButton,
          StartTimeoutFired, ClickRecordButton] init"

subsection \<open>Properties of \<^verbatim>\<open>formatTime\<close>\<close>

lemma of_char_digit_char: "d < 10 \<Longrightarrow> (of_char (digit_char d) :: nat) = 48 + d"
  by (simp add: digit_char_def)

lemma is_digit_digit_char: "d < 10 \<Longrightarrow> is_digit (digit_char d)"
  by (simp add: is_digit_def of_char_digit_char)

lemma digits_are_digits: "list_all is_digit (digits n)"
proof (induction n rule: digits.induct)
  case (1 n)
  show ?case
  proof (cases "n < 10")
    case True
    then show ?thesis by (subst digits.simps) (simp add: is_digit_digit_char)
  next
    case False
    with "1" have "list_all is_digit (digits (n div 10))" by simp
    moreover have "is_digit (digit_char (n mod 10))" by (simp add: is_digit_digit_char)
    ultimately show ?thesis using False by (subst digits.simps) simp
  qed
qed

lemma dec_value_snoc: "dec_value (str @ [c]) = 10 * dec_value str + (of_char c - 48)"
  by (simp add: dec_value_def)

lemma dec_value_digits: "dec_value (digits n) = n"
proof (induction n rule: digits.induct)
  case (1 n)
  show ?case
  proof (cases "n < 10")
    case True
    then show ?thesis by (subst digits.simps) (simp add: dec_value_def of_char_digit_char)
  next
    case False
    with "1" have ih: "dec_value (digits (n div 10)) = n div 10" by simp
    have "dec_value (digits n) = dec_value (digits (n div 10) @ [digit_char (n mod 10)])"
      using False by (subst digits.simps) simp
    also have "\<dots> = 10 * (n div 10) + n mod 10"
      by (simp add: dec_value_snoc ih of_char_digit_char)
    finally show ?thesis by simp
  qed
qed

lemma padStart_zero_cases:
  "padStart 2 ''0'' str = (if 2 \<le> length str then str else replicate (2 - length str) CHR ''0'' @ str)"
proof -
  have "concat (replicate k ''0'') = replicate k CHR ''0''" for k :: nat
    by (induction k) simp_all
  then show ?thesis by (simp add: padStart_def)
qed

lemma dec_value_zeros: "dec_value (replicate k CHR ''0'' @ str) = dec_value str"
  by (induction k) (simp_all add: dec_value_def)

lemma dec_value_padStart: "dec_value (padStart 2 ''0'' str) = dec_value str"
  by (simp add: padStart_zero_cases dec_value_zeros)

lemma length_padStart: "2 \<le> length (padStart 2 ''0'' str)"
  by (simp add: padStart_zero_cases)

lemma digits_padStart: "list_all is_digit str \<Longrightarrow> list_all is_digit (padStart 2 ''0'' str)"
  by (simp add: padStart_zero_cases is_digit_def list_all_iff)

text \<open>Below \<open>2 ^ 53\<close> the floor of the rounded quotient is the integer quotient.\<close>

lemma bit_length_le: "n < 2 ^ w \<Longrightarrow> bit_length n \<le> w"
proof (induction n arbitrary: w rule: bit_length.induct)
  case (1 n)
  show ?case
  proof (cases "n = 0")
    case True
    then show ?thesis by (subst bit_length.simps) simp
  next
    case False
    then obtain v where w: "w = Suc v" using "1.prems" by (cases w) auto
    then have "n div 2 < 2 ^ v" using "1.prems" by simp
    with 1 False have "bit_length (n div 2) \<le> v" by simp
    then show ?thesis using False w by (subst bit_length.simps) simp
  qed
qed

lemma bit_length_3600: "bit_length 3600 = 12"
  by (simp add: bit_length.simps)

lemma bit_length_60: "bit_length 60 = 6"
  by (simp add: bit_length.simps)

lemma round_half_even_ge: "n div d \<le> round_half_even n d"
  by (simp add: round_half_even_def Let_def)

lemma round_half_even_le: "round_half_even n d \<le> Suc (n div d)"
  by (simp add: round_half_even_def Let_def)

lemma round_half_even_window:
  assumes "0 < b" and "b < 2 ^ Suc p"
  shows "(a div b) * 2 ^ p \<le> round_half_even (a * 2 ^ p) b
       \<and> round_half_even (a * 2 ^ p) b < Suc (a div b) * 2 ^ p"
proof -
  let ?k = "a div b" and ?j = "a mod b" and ?N = "a * 2 ^ p"
  let ?Q = "?N div b" and ?R = "?N mod b"
  have a: "a = ?k * b + ?j" by simp
  have j: "?j < b" using assms(1) by simp
  have "?k * 2 ^ p * b \<le> ?N"
    by (metis a le_add1 mult.assoc mult.commute mult_le_mono1)
  then have "(?k * 2 ^ p * b) div b \<le> ?Q" by (rule div_le_mono)
  then have low: "?k * 2 ^ p \<le> ?Q" using assms(1) by simp
  have "?N < Suc ?k * 2 ^ p * b"
  proof -
    have "a < Suc ?k * b" using dividend_less_div_times [OF assms(1), of a] by simp
    then have "a * 2 ^ p < (Suc ?k * b) * 2 ^ p" by (simp only: mult_less_cancel2) simp
    then show ?thesis by (simp only: ac_simps)
  qed
  then have upQ: "?Q < Suc ?k * 2 ^ p"
    using assms(1) by (simp add: less_mult_imp_div_less)
  have up: "round_half_even ?N b < Suc ?k * 2 ^ p"
  proof (cases "Suc ?Q < Suc ?k * 2 ^ p")
    case True
    then show ?thesis using round_half_even_le [of ?N b] by linarith
  next
    case False
    with upQ have Q: "Suc ?Q = Suc ?k * 2 ^ p" by linarith
    have N: "?N = ?Q * b + ?R" by simp
    have Qb: "Suc ?Q * b = Suc ?k * b * 2 ^ p"
      by (simp only: Q mult.assoc mult.commute [of "2 ^ p" b])
    have "?N + b = Suc ?Q * b + ?R" using N by simp
    then have eq: "?N + b = Suc ?k * b * 2 ^ p + ?R" by (simp only: Qb)
    have "?j + (b - ?j) = b" using j by simp
    then have "a + (b - ?j) = ?k * b + b" using div_mult_mod_eq [of a b] by linarith
    then have "Suc ?k * b = a + (b - ?j)" by simp
    then have "Suc ?k * b * 2 ^ p = ?N + (b - ?j) * 2 ^ p" by (simp add: distrib_right)
    with eq have "b = (b - ?j) * 2 ^ p + ?R" by linarith
    moreover have "2 ^ p \<le> (b - ?j) * 2 ^ p" using j by simp
    ultimately have "?R + 2 ^ p \<le> b" by linarith
    then have "2 * ?R < b" using assms(2) by simp
    then have "round_half_even ?N b = ?Q" by (simp add: round_half_even_def Let_def)
    then show ?thesis using upQ by simp
  qed
  from low round_half_even_ge [of ?N b] up show ?thesis by linarith
qed

lemma floor_double_div:
  assumes "0 < b" and "int (bit_length a) - int (bit_length b) \<le> 52"
    and "b < 2 ^ Suc (nat (52 - (int (bit_length a) - int (bit_length b))))"
  shows "Math_floor (double_div a b) = a div b"
proof (cases "a = 0")
  case True
  then show ?thesis by (simp add: double_div_def Math_floor_def)
next
  case False
  define d where "d = int (bit_length a) - int (bit_length b)"
  define e0 where
    "e0 = (if (if 0 \<le> d then b * 2 ^ nat d \<le> a else b \<le> a * 2 ^ nat (- d)) then d else d - 1)"
  define p where "p = nat (52 - e0)"
  have e0: "e0 \<le> d" by (simp add: e0_def)
  then have e: "e0 - 52 \<le> 0" using assms(2) by (simp add: d_def)
  have "Suc (nat (52 - d)) \<le> Suc p" using e0 by (simp add: p_def)
  then have pw: "(2::nat) ^ Suc (nat (52 - d)) \<le> 2 ^ Suc p" by (rule power_increasing) simp
  have "b < 2 ^ Suc (nat (52 - d))" using assms(3) by (simp only: d_def)
  then have b: "b < 2 ^ Suc p" using pw by (rule less_le_trans)
  have dd: "double_div a b = (round_half_even (a * 2 ^ p) b, e0 - 52)"
    using False e by (simp add: double_div_def Let_def d_def [symmetric] e0_def [symmetric] p_def)
  have w: "(a div b) * 2 ^ p \<le> round_half_even (a * 2 ^ p) b
       \<and> round_half_even (a * 2 ^ p) b < Suc (a div b) * 2 ^ p"
    using assms(1) b by (rule round_half_even_window)
  have "round_half_even (a * 2 ^ p) b div 2 ^ p = a div b"
  proof -
    have "a div b \<le> round_half_even (a * 2 ^ p) b div 2 ^ p"
      using w by (simp add: less_eq_div_iff_mult_less_eq)
    moreover have "round_half_even (a * 2 ^ p) b div 2 ^ p < Suc (a div b)"
      using w by (simp add: less_mult_imp_div_less)
    ultimately show ?thesis by linarith
  qed
  then show ?thesis using e by (simp add: dd Math_floor_def p_def)
qed

lemma hours_exact: "s < 2 ^ 53 \<Longrightarrow> Math_floor (double_div s 3600) = s div 3600"
proof (rule floor_double_div)
  assume s: "s < 2 ^ 53"
  then have l: "bit_length s \<le> 53" by (rule bit_length_le)
  show "0 < (3600::nat)" by simp
  show "int (bit_length s) - int (bit_length 3600) \<le> 52"
    using l by (simp add: bit_length_3600)
  have "11 \<le> nat (52 - (int (bit_length s) - int (bit_length 3600)))"
    using l by (simp add: bit_length_3600)
  then have "(2::nat) ^ Suc 11 \<le> 2 ^ Suc (nat (52 - (int (bit_length s) - int (bit_length 3600))))"
    by (simp only: power_increasing_iff Suc_le_mono)
  then show "3600 < (2::nat) ^ Suc (nat (52 - (int (bit_length s) - int (bit_length 3600))))"
    by simp
qed

lemma minutes_exact: "a < 3600 \<Longrightarrow> Math_floor (double_div a 60) = a div 60"
proof (rule floor_double_div)
  assume "a < 3600"
  then have "a < 2 ^ 12" by simp
  then have l: "bit_length a \<le> 12" by (rule bit_length_le)
  show "0 < (60::nat)" by simp
  show "int (bit_length a) - int (bit_length 60) \<le> 52"
    using l by (simp add: bit_length_60)
  have "6 \<le> nat (52 - (int (bit_length a) - int (bit_length 60)))"
    using l by (simp add: bit_length_60)
  then have "(2::nat) ^ Suc 6 \<le> 2 ^ Suc (nat (52 - (int (bit_length a) - int (bit_length 60))))"
    by (simp only: power_increasing_iff Suc_le_mono)
  then show "60 < (2::nat) ^ Suc (nat (52 - (int (bit_length a) - int (bit_length 60))))"
    by simp
qed

lemma formatTime_small:
  assumes "s < 2 ^ 53"
  shows "formatTime large s =
     padStart 2 ''0'' (digits (s div 3600)) @ '':'' @
     padStart 2 ''0'' (digits ((s mod 3600) div 60)) @ '':'' @
     padStart 2 ''0'' (digits (s mod 60))"
proof -
  have h: "Math_floor (double_div s 3600) = s div 3600"
    using assms by (rule hours_exact)
  have m: "Math_floor (double_div (s mod 3600) 60) = (s mod 3600) div 60"
    by (rule minutes_exact) simp
  have c: "Math_floor (s mod 60, 0) = s mod 60"
    by (simp add: Math_floor_def)
  have "s div 3600 \<le> s" by simp
  then have hb: "s div 3600 < 2 ^ 53" using assms by (rule le_less_trans)
  have "(s mod 3600) div 60 < 60" by (simp add: less_mult_imp_div_less)
  then have mb: "(s mod 3600) div 60 < 2 ^ 53" by simp
  have "s mod 60 < 60" by simp
  then have cb: "s mod 60 < 2 ^ 53" by simp
  show ?thesis
    using hb mb cb by (simp add: formatTime_def Let_def h m c toString_def)
qed

text \<open>
  C10, as stated: for every non-negative integer number of seconds \<open>s\<close> the three
  fields of \<open>formatTime s\<close> recompose to \<open>s\<close>. At \<open>3600 * 2 ^ 52 + 2048\<close>, which is a
  double, the quotient by 3600 lies between \<open>2 ^ 52\<close> and \<open>2 ^ 52 + 1\<close>, where the
  doubles are the integers, and rounds up: the hours printed are \<open>2 ^ 52 + 1\<close>, and the
  fields recompose to a number that is 3600 too large.
\<close>

theorem formatTime_rounds_up_counterexample:
  "is_double (3600 * 2 ^ 52 + 2048)
   \<and> formatTime digits (3600 * 2 ^ 52 + 2048) = ''4503599627370497:34:08''
   \<and> dec_value ''4503599627370497'' * 3600 + dec_value ''34'' * 60 + dec_value ''08''
        = 3600 * 2 ^ 52 + 2048 + 3600"
  by (simp add: is_double_def formatTime_def toString_def double_div_def Math_floor_def
        round_half_even_def padStart_def dec_value_def digit_char_def bit_length.simps
        digits.simps Let_def char_of_eq_iff take_bit_eq_mod)

text \<open>
  C10, amended. For every non-negative integer number of seconds \<open>s\<close> below \<open>2 ^ 53\<close>,
  \<open>formatTime s\<close> is \<open>hh:mm:ss\<close> where each of the three fields consists of decimal
  digits and is at least two characters long (zero-padded), the minutes and the seconds
  read as numbers below 60, and hours * 3600 + minutes * 60 + seconds is \<open>s\<close>.
\<close>

theorem formatTime_fields:
  assumes "s < 2 ^ 53"
  shows "\<exists>hh mm ss. formatTime large s = hh @ '':'' @ mm @ '':'' @ ss
     \<and> list_all is_digit hh \<and> list_all is_digit mm \<and> list_all is_digit ss
     \<and> 2 \<le> length hh \<and> 2 \<le> length mm \<and> 2 \<le> length ss
     \<and> dec_value mm < 60 \<and> dec_value ss < 60
     \<and> dec_value hh * 3600 + dec_value mm * 60 + dec_value ss = s"
proof -
  let ?hh = "padStart 2 ''0'' (digits (s div 3600))"
  let ?mm = "padStart 2 ''0'' (digits ((s mod 3600) div 60))"
  let ?ss = "padStart 2 ''0'' (digits (s mod 60))"
  have shape: "formatTime large s = ?hh @ '':'' @ ?mm @ '':'' @ ?ss"
    using assms by (rule formatTime_small)
  have digs: "list_all is_digit ?hh" "list_all is_digit ?mm" "list_all is_digit ?ss"
    by (rule digits_padStart, rule digits_are_digits)+
  have lens: "2 \<le> length ?hh" "2 \<le> length ?mm" "2 \<le> length ?ss"
    by (rule length_padStart)+
  have vals: "dec_value ?hh = s div 3600" "dec_value ?mm = (s mod 3600) div 60"
      "dec_value ?ss = s mod 60"
    by (simp_all add: dec_value_padStart dec_value_digits)
  have mm: "(s mod 3600) div 60 < 60"
    by (simp add: less_mult_imp_div_less)
  have "s mod 3600 mod 60 = s mod 60"
    by (rule mod_mod_cancel) simp
  then have sum: "s div 3600 * 3600 + (s mod 3600) div 60 * 60 + s mod 60 = s"
    by (metis div_mult_mod_eq add.assoc)
  show ?thesis
    using shape digs lens vals mm sum by (intro exI [of _ ?hh] exI [of _ ?mm] exI [of _ ?ss]) simp
qed

theorem formatTime_fields_witness:
  "(3725 :: nat) < 2 ^ 53 \<and> formatTime digits 3725 = ''01:02:05''
   \<and> (\<exists>hh mm ss. formatTime digits 3725 = hh @ '':'' @ mm @ '':'' @ ss
        \<and> dec_value hh * 3600 + dec_value mm * 60 + dec_value ss = 3725)"
proof -
  have a: "(3725 :: nat) < 2 ^ 53" by simp
  have b: "formatTime digits 3725 = ''01:02:05''"
    by (simp add: formatTime_small [OF a] padStart_def digit_char_def digits.simps
          char_of_eq_iff take_bit_eq_mod)
  from formatTime_fields [OF a, of digits] a b show ?thesis by blast
qed

subsection \<open>Rendering keeps the core of the state\<close>

lemma core_render: "core (render s) = core s"
  by (simp add: core_def render_def)

lemma core_devicesEffect: "core (devicesEffect c s) = core s"
  by (simp add: core_def devicesEffect_def split: option.splits)

lemma core_audioEffect: "core (audioEffect c s) = core s"
  by (simp add: core_def audioEffect_def setupAudioProcessing_def updateVolume_def close_context_def
        Let_def split: option.splits)

lemma core_selectionEffect: "core (selectionEffect c s) = core s"
  by (simp add: core_def selectionEffect_def handlePermission_def)

lemma core_countdownEffect: "core (countdownEffect c s) = core s"
  by (simp add: core_def countdownEffect_def Let_def)

lemma core_rerender: "core (rerender pre post) = core post"
  by (simp add: rerender_def Let_def core_render core_devicesEffect core_audioEffect
        core_selectionEffect core_countdownEffect)

lemma core_commit: "core (commit pre post) = core post"
  by (simp add: commit_def core_rerender)

lemma core_fields:
  assumes "core s = core t"
  shows "mediaStream s = mediaStream t" "recordingTime s = recordingTime t"
    "selectedVideoDevice s = selectedVideoDevice t" "selectedAudioDevice s = selectedAudioDevice t"
    "recording s = recording t" "isSubmit s = isSubmit t" "recordedVideo s = recordedVideo t"
    "countdown s = countdown t" "videoRef s = videoRef t" "mediaRecorderRef s = mediaRecorderRef t"
    "recorders s = recorders t" "nextRecorder s = nextRecorder t" "liveStreams s = liveStreams t"
    "nextStream s = nextStream t" "startTimeouts s = startTimeouts t"
    "elapsedIntervals s = elapsedIntervals t" "console s = console t"
  using assms by (simp_all add: core_def)

lemmas commit_keeps = core_fields [OF core_commit]

lemmas rerender_keeps = core_fields [OF core_rerender]

lemmas render_keeps = core_fields [OF core_render]

lemma interval_render: "countdownInterval (render s) = countdownInterval s"
  by (simp add: render_def)

lemma interval_devicesEffect: "countdownInterval (devicesEffect c s) = countdownInterval s"
  by (simp add: devicesEffect_def split: option.splits)

lemma interval_audioEffect: "countdownInterval (audioEffect c s) = countdownInterval s"
  by (simp add: audioEffect_def setupAudioProcessing_def updateVolume_def close_context_def
        Let_def split: option.splits)

lemma interval_selectionEffect: "countdownInterval (selectionEffect c s) = countdownInterval s"
  by (simp add: selectionEffect_def handlePermission_def)

lemma interval_countdownEffect: "countdownInterval (countdownEffect c s) = (0 < countdown c)"
  by (simp add: countdownEffect_def Let_def)

lemma interval_rerender:
  "countdownInterval (rerender pre post) =
     (if countdown post \<noteq> countdown pre then 0 < countdown post else countdownInterval post)"
  by (simp add: rerender_def Let_def interval_render interval_devicesEffect interval_audioEffect
        interval_selectionEffect interval_countdownEffect render_keeps)

lemma interval_commit:
  "countdownInterval (commit pre post) =
     (if countdown post \<noteq> countdown pre then 0 < countdown post else countdownInterval post)"
  by (auto simp add: commit_def interval_rerender react_state_def)

lemma lists_rerender:
  "mediaStream post = mediaStream pre \<Longrightarrow>
   videoDevices (rerender pre post) = videoDevices post
   \<and> audioDevices (rerender pre post) = audioDevices post
   \<and> volume (rerender pre post) = volume post"
  by (simp add: rerender_def render_def Let_def selectionEffect_def countdownEffect_def
        handlePermission_def)

lemma run_append: "run (es @ fs) s = run fs (run es s)"
  by (induction es arbitrary: s) simp_all

subsection \<open>Switching the device\<close>

lemma handleDeviceChange_request:
  "pendingGetUserMedia (handleDeviceChange c s) =
     pendingGetUserMedia s @ [(selectedVideoDevice c, selectedAudioDevice c)]"
  by (simp add: handleDeviceChange_def handlePermission_def stopRecording_def recorder_stop_def
        stop_tracks_def Let_def split: option.splits)

lemma handleDeviceChange_releases:
  "mediaStream c = Some m \<Longrightarrow>
   m \<notin> liveStreams (handleDeviceChange c s) \<and> mediaStream (handleDeviceChange c s) = None
   \<and> \<not> recording (handleDeviceChange c s)"
  by (simp add: handleDeviceChange_def handlePermission_def stopRecording_def recorder_stop_def
        stop_tracks_def Let_def split: option.splits)

lemma change_requests_previous_pair:
  "pendingGetUserMedia (fire (ChangeVideo v) s) =
     pendingGetUserMedia s @ [(selectedVideoDevice s, selectedAudioDevice s)]
   \<and> pendingGetUserMedia (fire (ChangeAudio v) s) =
     pendingGetUserMedia s @ [(selectedVideoDevice s, selectedAudioDevice s)]"
proof -
  have none: "mediaStream (handleDeviceChange s t) = None" if "mediaStream t = mediaStream s" for t
    using that
    by (simp add: handleDeviceChange_def handlePermission_def stopRecording_def recorder_stop_def
          stop_tracks_def Let_def split: option.splits)
  have quiet: "pendingGetUserMedia (commit s post) = pendingGetUserMedia post"
    if "mediaStream post = None" for post
    using that
    by (simp add: commit_def rerender_def render_def devicesEffect_def audioEffect_def
          selectionEffect_def countdownEffect_def Let_def)
  have "mediaStream (onChangeVideo v s s) = None" "mediaStream (onChangeAudio v s s) = None"
    by (simp_all add: onChangeVideo_def onChangeAudio_def none)
  then show ?thesis
    by (simp add: quiet) (simp add: onChangeVideo_def onChangeAudio_def handleDeviceChange_request)
qed

text \<open>
  C1. Switching the video or audio device while a session is live stops the tracks of the
  current stream and the recording, then requests access with the new device pair, and
  exactly one live session exists afterwards. The code does not do this: in the live
  session \<open>live\<close>, with camera \<open>camA\<close> and microphone \<open>mic\<close> selected and no request
  pending, choosing \<open>camB\<close> sets the selection to \<open>camB\<close> but the one request that
  \<^verbatim>\<open>handleDeviceChange\<close> issues is for the pair of the render that created the handler,
  \<open>(camA, mic)\<close>; and once it is granted, the stream 0 of the first acquisition, which
  nothing ever stopped, and the new stream 2 both have live tracks.
\<close>

theorem device_change_requests_stale_pair:
  "mediaStream live = Some 1 \<and> selectedVideoDevice live = ''camA''
   \<and> selectedAudioDevice live = ''mic'' \<and> pendingGetUserMedia live = []
   \<and> liveStreams live = {0, 1}
   \<and> selectedVideoDevice (fire (ChangeVideo ''camB'') live) = ''camB''
   \<and> selectedAudioDevice (fire (ChangeVideo ''camB'') live) = ''mic''
   \<and> pendingGetUserMedia (fire (ChangeVideo ''camB'') live) = [(''camA'', ''mic'')]
   \<and> pendingGetUserMedia (fire (GetUserMediaSettled Granted) (fire (ChangeVideo ''camB'') live)) = []
   \<and> liveStreams (fire (GetUserMediaSettled Granted) (fire (ChangeVideo ''camB'') live)) = {0, 2}"
  by code_simp

subsection \<open>Releasing the session\<close>

lemma denyMediaPermissions_explicit:
  "denyMediaPermissions c s =
     s\<lparr>liveStreams := liveStreams s - set_option (mediaStream c),
       recorders :=
         (case mediaRecorderRef s of
            None \<Rightarrow> recorders s
          | Some r \<Rightarrow>
              if rec_state (recorders s r) = inactive then recorders s
              else (recorders s)(r := (recorders s r)\<lparr>rec_state := inactive, rec_stop_queued := True\<rparr>)),
       mediaRecorderRef := None, recording := False, recordingTime := 0,
       runningContexts := runningContexts s - set_option (audioContextRef s),
       mediaStream := None\<rparr>"
  by (cases "mediaStream c"; cases "mediaRecorderRef s"; cases "audioContextRef s")
     (simp_all add: denyMediaPermissions_def stop_tracks_def recorder_stop_def close_context_def Let_def)

text \<open>
  C2. \<^verbatim>\<open>denyMediaPermissions\<close> is idempotent: called a second time, by the same handler
  or by the handler of the next render, it changes nothing more. It stops the tracks of
  the current stream, stops the recorder in the ref and empties the ref, clears the
  recording flag, resets the elapsed time to zero, closes the audio context and clears
  the session; with no stream, no recorder and no audio context it only writes those
  three state variables.
\<close>

theorem denyMediaPermissions_idempotent:
  "denyMediaPermissions c (denyMediaPermissions c s) = denyMediaPermissions c s
   \<and> denyMediaPermissions (denyMediaPermissions c s) (denyMediaPermissions c s) = denyMediaPermissions c s
   \<and> liveStreams (denyMediaPermissions c s) = liveStreams s - set_option (mediaStream c)
   \<and> pred_option (\<lambda>r. rec_state (recorders (denyMediaPermissions c s) r) = inactive) (mediaRecorderRef s)
   \<and> mediaRecorderRef (denyMediaPermissions c s) = None
   \<and> recording (denyMediaPermissions c s) = False
   \<and> recordingTime (denyMediaPermissions c s) = 0
   \<and> runningContexts (denyMediaPermissions c s) = runningContexts s - set_option (audioContextRef s)
   \<and> mediaStream (denyMediaPermissions c s) = None
   \<and> (mediaStream c = None \<and> mediaRecorderRef s = None \<and> audioContextRef s = None \<longrightarrow>
        denyMediaPermissions c s = s\<lparr>recording := False, recordingTime := 0, mediaStream := None\<rparr>)"
proof -
  have same: "denyMediaPermissions c (denyMediaPermissions c s) = denyMediaPermissions c s"
    by (simp add: denyMediaPermissions_explicit)
  have again: "denyMediaPermissions (denyMediaPermissions c s) (denyMediaPermissions c s)
      = denyMediaPermissions c s"
    by (simp add: denyMediaPermissions_explicit)
  have stopped: "pred_option (\<lambda>r. rec_state (recorders (denyMediaPermissions c s) r) = inactive)
      (mediaRecorderRef s)"
    by (cases "mediaRecorderRef s") (simp_all add: denyMediaPermissions_explicit)
  have nothing: "mediaStream c = None \<and> mediaRecorderRef s = None \<and> audioContextRef s = None \<longrightarrow>
      denyMediaPermissions c s = s\<lparr>recording := False, recordingTime := 0, mediaStream := None\<rparr>"
    by (simp add: denyMediaPermissions_explicit)
  show ?thesis
    using same again stopped nothing by (simp add: denyMediaPermissions_explicit)
qed

theorem denyMediaPermissions_idempotent_witness:
  "mediaStream init = None \<and> mediaRecorderRef init = None \<and> audioContextRef init = None
   \<and> denyMediaPermissions init init = init
   \<and> denyMediaPermissions init (denyMediaPermissions init init) = denyMediaPermissions init init"
  using denyMediaPermissions_idempotent [of init init] by (simp add: init_def)


subsection \<open>Starting\<close>

text \<open>
  C3, as stated: where no session is live, or the recording machine is neither idle nor
  stopped, \<^verbatim>\<open>startRecording\<close> changes no observable state. It does: with no stream it
  sets the countdown, from 0 to 3 in the initial state; and in the session \<open>counting\<close>,
  which is one second into its countdown, a click on the record button runs
  \<^verbatim>\<open>startRecording\<close> again, which restarts the countdown, replaces recorder 0 in the ref
  by a new recorder 1 and sets a second timeout.
\<close>

theorem start_not_noop_counterexample:
  "mediaStream init = None \<and> countdown init = 0 \<and> countdown (startRecording init init) = 3
   \<and> mediaStream counting = Some 0 \<and> \<not> recording counting \<and> countdown counting = 2
   \<and> mediaRecorderRef counting = Some 0 \<and> startTimeouts counting = 1
   \<and> countdown (fire ClickRecordButton counting) = 3
   \<and> mediaRecorderRef (fire ClickRecordButton counting) = Some 1
   \<and> startTimeouts (fire ClickRecordButton counting) = 2"
  by code_simp

lemma startRecording_no_stream:
  "mediaStream c = None \<Longrightarrow> startRecording c s = s\<lparr>countdown := 3\<rparr>"
  by (simp add: startRecording_def Let_def)

lemma chunkArrays_commit_countdown:
  "a = nextChunks s \<or> chunkArrays (commit s (s\<lparr>countdown := n\<rparr>)) a = chunkArrays s a"
  by (simp add: commit_def rerender_def render_def countdownEffect_def react_state_def Let_def)

text \<open>
  C3, amended. With no stream \<^verbatim>\<open>startRecording\<close> leaves the recording flag, the elapsed
  time, the recorder ref, the recorders and the chunk arrays as they are and sets
  neither the timeout that starts the recording nor the interval of the elapsed time;
  this is so when the handler returns and when its update has been rendered, where the
  new render has its own new chunk array. The record button is not rendered without a
  stream, so that a click changes nothing. While the recording flag is set the button is
  the stop control: a click leaves the countdown, the recorder ref and the pending start
  timeouts as they are and creates no recorder. Nothing is said here of the countdown
  and of its one-second interval.
\<close>

theorem start_without_session:
  "(mediaStream c = None \<longrightarrow>
      recording (startRecording c s) = recording s
      \<and> recordingTime (startRecording c s) = recordingTime s
      \<and> mediaRecorderRef (startRecording c s) = mediaRecorderRef s
      \<and> recorders (startRecording c s) = recorders s
      \<and> nextRecorder (startRecording c s) = nextRecorder s
      \<and> chunkArrays (startRecording c s) = chunkArrays s
      \<and> startTimeouts (startRecording c s) = startTimeouts s
      \<and> elapsedIntervals (startRecording c s) = elapsedIntervals s
      \<and> recording (commit s (startRecording c s)) = recording s
      \<and> recordingTime (commit s (startRecording c s)) = recordingTime s
      \<and> mediaRecorderRef (commit s (startRecording c s)) = mediaRecorderRef s
      \<and> recorders (commit s (startRecording c s)) = recorders s
      \<and> nextRecorder (commit s (startRecording c s)) = nextRecorder s
      \<and> startTimeouts (commit s (startRecording c s)) = startTimeouts s
      \<and> elapsedIntervals (commit s (startRecording c s)) = elapsedIntervals s
      \<and> (a = nextChunks s \<or> chunkArrays (commit s (startRecording c s)) a = chunkArrays s a))
   \<and> (mediaStream s = None \<longrightarrow> fire ClickRecordButton s = s)
   \<and> (recording s \<longrightarrow>
      countdown (fire ClickRecordButton s) = countdown s
      \<and> mediaRecorderRef (fire ClickRecordButton s) = mediaRecorderRef s
      \<and> nextRecorder (fire ClickRecordButton s) = nextRecorder s
      \<and> startTimeouts (fire ClickRecordButton s) = startTimeouts s)"
proof -
  have first: "recording (startRecording c s) = recording s
      \<and> recordingTime (startRecording c s) = recordingTime s
      \<and> mediaRecorderRef (startRecording c s) = mediaRecorderRef s
      \<and> recorders (startRecording c s) = recorders s
      \<and> nextRecorder (startRecording c s) = nextRecorder s
      \<and> chunkArrays (startRecording c s) = chunkArrays s
      \<and> startTimeouts (startRecording c s) = startTimeouts s
      \<and> elapsedIntervals (startRecording c s) = elapsedIntervals s
      \<and> recording (commit s (startRecording c s)) = recording s
      \<and> recordingTime (commit s (startRecording c s)) = recordingTime s
      \<and> mediaRecorderRef (commit s (startRecording c s)) = mediaRecorderRef s
      \<and> recorders (commit s (startRecording c s)) = recorders s
      \<and> nextRecorder (commit s (startRecording c s)) = nextRecorder s
      \<and> startTimeouts (commit s (startRecording c s)) = startTimeouts s
      \<and> elapsedIntervals (commit s (startRecording c s)) = elapsedIntervals s
      \<and> (a = nextChunks s \<or> chunkArrays (commit s (startRecording c s)) a = chunkArrays s a)"
    if "mediaStream c = None"
    using chunkArrays_commit_countdown [of a s 3]
    by (simp add: startRecording_no_stream [OF that] commit_keeps)
  have second: "fire ClickRecordButton s = s" if "mediaStream s = None"
    using that by simp
  have third: "countdown (fire ClickRecordButton s) = countdown s
      \<and> mediaRecorderRef (fire ClickRecordButton s) = mediaRecorderRef s
      \<and> nextRecorder (fire ClickRecordButton s) = nextRecorder s
      \<and> startTimeouts (fire ClickRecordButton s) = startTimeouts s"
    if "recording s"
    using that
    by (simp add: commit_keeps stopRecording_def recorder_stop_def Let_def split: option.splits)
  from first second third show ?thesis by blast
qed

theorem start_without_session_witness:
  "mediaStream init = None \<and> startTimeouts (startRecording init init) = 0
   \<and> mediaRecorderRef (startRecording init init) = None
   \<and> startTimeouts (commit init (startRecording init init)) = 0
   \<and> elapsedIntervals (commit init (startRecording init init)) = 0
   \<and> mediaRecorderRef (commit init (startRecording init init)) = None
   \<and> chunkArrays (commit init (startRecording init init)) 0 = []
   \<and> fire ClickRecordButton init = init
   \<and> recording rolling \<and> countdown rolling = 0
   \<and> countdown (fire ClickRecordButton rolling) = 0
   \<and> mediaRecorderRef (fire ClickRecordButton rolling) = Some 0
   \<and> startTimeouts (fire ClickRecordButton rolling) = 0"
proof -
  have a: "mediaStream init = None" "startTimeouts init = 0" "mediaRecorderRef init = None"
    "elapsedIntervals init = 0" "nextChunks init = 1" "chunkArrays init 0 = []"
    by (simp_all add: init_def)
  have b: "recording rolling" "countdown rolling = 0" "mediaRecorderRef rolling = Some 0"
    "startTimeouts rolling = 0"
    by code_simp+
  show ?thesis
    using start_without_session [of init init 0] start_without_session [of init rolling 0] a b
    by simp
qed

subsection \<open>The volume sample\<close>

lemma foldl_bytes:
  "foldl (\<lambda>a b. a + real (unat b)) x (xs :: byte list) = x + real (sum_list (map unat xs))"
  by (induction xs arbitrary: x) (simp_all del: of_nat_unat)

lemma sum_bytes_le: "sum_list (map unat (xs :: byte list)) \<le> 255 * length xs"
proof (induction xs)
  case Nil
  then show ?case by simp
next
  case (Cons x xs)
  have "unat x < 2 ^ 8" using unsigned_less [of x, where 'a = nat] by simp
  then have "unat x \<le> 255" by simp
  with Cons show ?case by simp
qed

lemma updateVolume_volume:
  "volume (updateVolume dataArray s) = real (sum_list (map unat dataArray)) / real (length dataArray)"
  by (simp add: updateVolume_def Let_def foldl_bytes del: of_nat_unat)

text \<open>
  C4, as stated: the sample published by an iteration of the sampling loop is the mean
  of the bins and lies between 0 and 100. With every one of the 128 bins at 255 the
  sample is 255.
\<close>

theorem volume_above_100_counterexample:
  "length (replicate bufferLength (255 :: byte)) = bufferLength
   \<and> volume (updateVolume (replicate bufferLength 255) init) = 255
   \<and> \<not> volume (updateVolume (replicate bufferLength 255) init) \<le> 100"
  by (simp add: updateVolume_volume bufferLength_def fftSize_def sum_list_replicate)

text \<open>
  C4, amended. For every iteration of the sampling loop, on the 128 bytes that the
  analyser delivered, the sample published is the mean of the bins, the sum of the bytes
  divided by their number, and lies between 0 and 255; this is the volume after the
  animation frame of a running loop as well.
\<close>

theorem updateVolume_mean_range:
  assumes "length dataArray = bufferLength" and "a \<in> volumeLoops s"
  shows "volume (updateVolume dataArray s) = real (sum_list (map unat dataArray)) / real (length dataArray)
       \<and> volume (fire (AnimationFrame a dataArray) s) = volume (updateVolume dataArray s)
       \<and> 0 \<le> volume (updateVolume dataArray s) \<and> volume (updateVolume dataArray s) \<le> 255"
proof -
  have len: "length dataArray = 128"
    using assms(1) by (simp add: bufferLength_def fftSize_def)
  have "real (sum_list (map unat dataArray)) \<le> real (255 * length dataArray)"
    using sum_bytes_le [of dataArray] by (rule of_nat_mono)
  then have le: "real (sum_list (map unat dataArray)) / real (length dataArray) \<le> 255"
    using len by simp
  have "mediaStream (updateVolume dataArray s) = mediaStream s"
    by (simp add: updateVolume_def Let_def)
  then have "volume (rerender s (updateVolume dataArray s)) = volume (updateVolume dataArray s)"
    using lists_rerender by blast
  then have "volume (fire (AnimationFrame a dataArray) s) = volume (updateVolume dataArray s)"
    using assms by (simp add: commit_def)
  with le show ?thesis by (simp add: updateVolume_volume)
qed

theorem updateVolume_mean_range_witness:
  "length (replicate bufferLength (64 :: byte)) = bufferLength \<and> 0 \<in> volumeLoops live
   \<and> volume (updateVolume (replicate bufferLength 64) live) = 64
   \<and> volume (fire (AnimationFrame 0 (replicate bufferLength 64)) live) = 64"
proof -
  have a: "length (replicate bufferLength (64 :: byte)) = bufferLength" by simp
  have b: "0 \<in> volumeLoops live" by code_simp
  have c: "real (sum_list (map unat (replicate bufferLength (64 :: byte)))) / real bufferLength = 64"
    by (simp add: bufferLength_def fftSize_def sum_list_replicate)
  show ?thesis
    using updateVolume_mean_range [OF a b] a b c by simp
qed


subsection \<open>Chunks and the artifact\<close>

lemma run_data:
  "r < nextRecorder s \<Longrightarrow>
   rec_state (recorders s r) = recording_state \<or> rec_stop_queued (recorders s r) \<Longrightarrow>
   run (map (DataAvailable r) ds) s =
     s\<lparr>chunkArrays := (chunkArrays s)(rec_chunks (recorders s r) :=
          chunkArrays s (rec_chunks (recorders s r)) @ ds)\<rparr>"
proof (induction ds arbitrary: s)
  case Nil
  then show ?case by simp
next
  case (Cons d ds)
  let ?a = "rec_chunks (recorders s r)"
  let ?s1 = "ondataavailable ?a d s"
  have step: "fire (DataAvailable r d) s = ?s1"
    using Cons.prems by simp
  have "r < nextRecorder ?s1"
    "rec_state (recorders ?s1 r) = recording_state \<or> rec_stop_queued (recorders ?s1 r)"
    using Cons.prems by (simp_all add: ondataavailable_def)
  then have ih: "run (map (DataAvailable r) ds) ?s1 =
      ?s1\<lparr>chunkArrays := (chunkArrays ?s1)(rec_chunks (recorders ?s1 r) :=
           chunkArrays ?s1 (rec_chunks (recorders ?s1 r)) @ ds)\<rparr>"
    by (rule Cons.IH)
  have same: "recorders ?s1 = recorders s"
    by (simp add: ondataavailable_def)
  have upd: "(chunkArrays ?s1)(?a := chunkArrays ?s1 ?a @ ds) = (chunkArrays s)(?a := chunkArrays s ?a @ d # ds)"
    by (simp add: ondataavailable_def)
  have "run (map (DataAvailable r) (d # ds)) s = run (map (DataAvailable r) ds) ?s1"
    using step by simp
  also have "\<dots> = ?s1\<lparr>chunkArrays := (chunkArrays s)(?a := chunkArrays s ?a @ d # ds)\<rparr>"
    using ih by (simp only: same upd)
  also have "\<dots> = s\<lparr>chunkArrays := (chunkArrays s)(?a := chunkArrays s ?a @ d # ds)\<rparr>"
    by (simp add: ondataavailable_def)
  finally show ?case .
qed

lemma chunkArrays_render: "chunkArrays s a = [] \<Longrightarrow> chunkArrays (render s) a = []"
  by (simp add: render_def)

lemma chunkArrays_devicesEffect: "chunkArrays (devicesEffect c s) = chunkArrays s"
  by (simp add: devicesEffect_def split: option.splits)

lemma chunkArrays_audioEffect: "chunkArrays (audioEffect c s) = chunkArrays s"
  by (simp add: audioEffect_def setupAudioProcessing_def updateVolume_def close_context_def
        Let_def split: option.splits)

lemma chunkArrays_selectionEffect: "chunkArrays (selectionEffect c s) = chunkArrays s"
  by (simp add: selectionEffect_def handlePermission_def)

lemma chunkArrays_countdownEffect: "chunkArrays (countdownEffect c s) = chunkArrays s"
  by (simp add: countdownEffect_def Let_def)

lemma chunkArrays_rerender_empty:
  "chunkArrays post a = [] \<Longrightarrow> chunkArrays (rerender pre post) a = []"
  by (simp add: rerender_def Let_def chunkArrays_render chunkArrays_devicesEffect
        chunkArrays_audioEffect chunkArrays_selectionEffect chunkArrays_countdownEffect)

text \<open>
  C5. In a recording cycle every data-available event of a recorder, while it records
  or while its stop is being finalised, appends its fragment to the chunk array that the
  recorder's callbacks captured, in order; and when the stop event follows, the recorded
  video is the blob made of all the fragments in the array, in order, whatever the
  recorded video was before, and the array is empty.
\<close>

theorem recording_cycle_artifact:
  assumes "r < nextRecorder s"
    and "rec_state (recorders s r) = recording_state \<or> rec_stop_queued (recorders s r)"
  shows "chunkArrays (run (map (DataAvailable r) ds) s) (rec_chunks (recorders s r))
           = chunkArrays s (rec_chunks (recorders s r)) @ ds
       \<and> (rec_stop_queued (recorders s r) \<longrightarrow>
            recordedVideo (run (map (DataAvailable r) ds @ [RecorderStopped r]) s)
              = Some \<lparr>blob_data = concat (chunkArrays s (rec_chunks (recorders s r)) @ ds),
                      blob_type = ''video/webm''\<rparr>
            \<and> chunkArrays (run (map (DataAvailable r) ds @ [RecorderStopped r]) s)
                (rec_chunks (recorders s r)) = [])"
proof -
  let ?a = "rec_chunks (recorders s r)"
  let ?s1 = "run (map (DataAvailable r) ds) s"
  have s1: "?s1 = s\<lparr>chunkArrays := (chunkArrays s)(?a := chunkArrays s ?a @ ds)\<rparr>"
    using assms by (rule run_data)
  have buf: "chunkArrays ?s1 ?a = chunkArrays s ?a @ ds"
    by (simp add: s1)
  let ?post = "onstop ?a (?s1\<lparr>recorders := (recorders ?s1)(r := (recorders ?s1 r)\<lparr>rec_stop_queued := False\<rparr>)\<rparr>)"
  have video: "recordedVideo ?post
      = Some \<lparr>blob_data = concat (chunkArrays s ?a @ ds), blob_type = ''video/webm''\<rparr>"
    by (simp add: s1 onstop_def new_Blob_def Let_def)
  have cleared: "chunkArrays ?post ?a = []"
    by (simp add: onstop_def Let_def)
  have kept: "recordedVideo (rerender ?s1 ?post) = recordedVideo ?post"
    by (rule rerender_keeps)
  have empty: "chunkArrays (rerender ?s1 ?post) ?a = []"
    using cleared by (rule chunkArrays_rerender_empty)
  have "recordedVideo (run (map (DataAvailable r) ds @ [RecorderStopped r]) s)
          = Some \<lparr>blob_data = concat (chunkArrays s ?a @ ds), blob_type = ''video/webm''\<rparr>
        \<and> chunkArrays (run (map (DataAvailable r) ds @ [RecorderStopped r]) s) ?a = []"
    if queued: "rec_stop_queued (recorders s r)"
  proof -
    have "fire (RecorderStopped r) ?s1 = rerender ?s1 ?post"
      using assms(1) queued by (simp add: s1)
    then show ?thesis
      using video kept empty by (simp add: run_append)
  qed
  with buf show ?thesis by simp
qed

theorem recording_cycle_artifact_witness:
  "0 < nextRecorder stopping \<and> rec_stop_queued (recorders stopping 0)
   \<and> chunkArrays (run (map (DataAvailable 0) [[1, 2], [3]]) stopping)
        (rec_chunks (recorders stopping 0)) = [[1, 2], [3]]
   \<and> recordedVideo (run (map (DataAvailable 0) [[1, 2], [3]] @ [RecorderStopped 0]) stopping)
        = Some \<lparr>blob_data = [1, 2, 3], blob_type = ''video/webm''\<rparr>
   \<and> chunkArrays (run (map (DataAvailable 0) [[1, 2], [3]] @ [RecorderStopped 0]) stopping)
        (rec_chunks (recorders stopping 0)) = []"
proof -
  have h1: "0 < nextRecorder stopping" by code_simp
  have h2: "rec_stop_queued (recorders stopping 0)" by code_simp
  have h3: "chunkArrays stopping (rec_chunks (recorders stopping 0)) = []" by code_simp
  have h4: "rec_state (recorders stopping 0) = recording_state \<or> rec_stop_queued (recorders stopping 0)"
    using h2 by simp
  show ?thesis
    using recording_cycle_artifact [OF h1 h4, of "[[1, 2], [3]]"] h1 h2 h3 by simp
qed

subsection \<open>The elapsed time\<close>

lemma startTimeout_fields:
  "recordingTime (startTimeout s) = 0"
  "elapsedIntervals (startTimeout s) = Suc (elapsedIntervals s)"
  by (simp_all add: startTimeout_def recorder_start_def Let_def split: option.splits)

lemma startTimeout_starts:
  "mediaRecorderRef s = Some r \<Longrightarrow> rec_state (recorders s r) = inactive \<Longrightarrow>
   rec_state (recorders (startTimeout s) r) = recording_state \<and> recording (startTimeout s)"
  by (simp add: startTimeout_def recorder_start_def Let_def)

lemma stopRecording_fields:
  "recordingTime (stopRecording s) = 0"
  "recording (stopRecording s) = False"
  "recordedVideo (stopRecording s) = recordedVideo s"
  by (simp_all add: stopRecording_def recorder_stop_def Let_def split: option.splits)

lemma stopRecording_queues:
  "mediaRecorderRef s = Some r \<Longrightarrow> rec_state (recorders s r) = recording_state \<Longrightarrow>
   rec_state (recorders (stopRecording s) r) = inactive
   \<and> rec_stop_queued (recorders (stopRecording s) r)"
  by (simp add: stopRecording_def recorder_stop_def Let_def)

text \<open>
  C6. The elapsed recording time is reset to 0 at the start of the recording, when the
  timeout set by \<^verbatim>\<open>startRecording\<close> fires on a state \<open>s\<close>, starts the recorder of the
  ref and starts the elapsed tick; and it is reset to 0 at once when the stop control is
  clicked in a recording state \<open>t\<close>, where the recorded video is still what it was and the
  recorder's finalisation, which will deliver it, is queued and has not run.
\<close>

theorem elapsed_time_reset:
  assumes "startTimeouts s \<noteq> 0" and "mediaRecorderRef s = Some r"
    and "rec_state (recorders s r) = inactive"
    and "mediaStream t \<noteq> None" and "recording t" and "mediaRecorderRef t = Some q"
    and "rec_state (recorders t q) = recording_state"
  shows "recordingTime (fire StartTimeoutFired s) = 0
       \<and> elapsedIntervals (fire StartTimeoutFired s) = Suc (elapsedIntervals s)
       \<and> rec_state (recorders (fire StartTimeoutFired s) r) = recording_state
       \<and> recording (fire StartTimeoutFired s)
       \<and> recordingTime (fire ClickRecordButton t) = 0
       \<and> \<not> recording (fire ClickRecordButton t)
       \<and> rec_stop_queued (recorders (fire ClickRecordButton t) q)
       \<and> recordedVideo (fire ClickRecordButton t) = recordedVideo t"
proof -
  let ?s0 = "s\<lparr>startTimeouts := startTimeouts s - 1\<rparr>"
  have "mediaRecorderRef ?s0 = Some r" "rec_state (recorders ?s0 r) = inactive"
    using assms by simp_all
  then have "rec_state (recorders (startTimeout ?s0) r) = recording_state \<and> recording (startTimeout ?s0)"
    by (rule startTimeout_starts)
  then have start: "recordingTime (fire StartTimeoutFired s) = 0
       \<and> elapsedIntervals (fire StartTimeoutFired s) = Suc (elapsedIntervals s)
       \<and> rec_state (recorders (fire StartTimeoutFired s) r) = recording_state
       \<and> recording (fire StartTimeoutFired s)"
    using assms(1) by (simp add: commit_keeps startTimeout_fields)
  have "rec_state (recorders (stopRecording t) q) = inactive
      \<and> rec_stop_queued (recorders (stopRecording t) q)"
    using assms(6,7) by (rule stopRecording_queues)
  then have stop: "recordingTime (fire ClickRecordButton t) = 0
       \<and> \<not> recording (fire ClickRecordButton t)
       \<and> rec_stop_queued (recorders (fire ClickRecordButton t) q)
       \<and> recordedVideo (fire ClickRecordButton t) = recordedVideo t"
    using assms(4,5) by (simp add: commit_keeps stopRecording_fields)
  from start stop show ?thesis by simp
qed

theorem elapsed_time_reset_witness:
  "startTimeouts armed \<noteq> 0 \<and> mediaRecorderRef armed = Some 0
   \<and> rec_state (recorders armed 0) = inactive
   \<and> mediaStream rolling \<noteq> None \<and> recording rolling \<and> mediaRecorderRef rolling = Some 0
   \<and> rec_state (recorders rolling 0) = recording_state
   \<and> recordingTime rolling = 2
   \<and> recordingTime (fire StartTimeoutFired armed) = 0
   \<and> recordingTime (fire ClickRecordButton rolling) = 0
   \<and> recordedVideo (fire ClickRecordButton rolling) = recordedVideo rolling
   \<and> rec_stop_queued (recorders (fire ClickRecordButton rolling) 0)"
proof -
  have a: "startTimeouts armed \<noteq> 0" "mediaRecorderRef armed = Some 0"
    "rec_state (recorders armed 0) = inactive"
    by code_simp+
  have b: "mediaStream rolling \<noteq> None" "recording rolling" "mediaRecorderRef rolling = Some 0"
    "rec_state (recorders rolling 0) = recording_state"
    by code_simp+
  have c: "recordingTime rolling = 2" by code_simp
  show ?thesis
    using elapsed_time_reset [OF a b] a b c by simp
qed


subsection \<open>A request that fails\<close>

text \<open>
  C7. When the browser rejects a pending \<^verbatim>\<open>getUserMedia\<close> request, the state is what it
  was but for the request, which is no longer pending, and for one more line on the
  console: no stream is bound, the selections, the recording state and the recorded
  video are untouched, and no new request is issued.
\<close>

theorem denied_request_leaves_state:
  "pendingGetUserMedia s = req # rest \<Longrightarrow>
   fire (GetUserMediaSettled (Denied err)) s =
     s\<lparr>pendingGetUserMedia := rest, console := console s @ [''Permission denied'']\<rparr>"
  by (simp add: getUserMedia_settle_def handlePermission_catch_def commit_def react_state_def)

theorem denied_request_leaves_state_witness:
  "pendingGetUserMedia (fire ClickAskPermission init) = [([], [])]
   \<and> fire (GetUserMediaSettled (Denied ''NotAllowedError'')) (fire ClickAskPermission init) =
     (fire ClickAskPermission init)\<lparr>pendingGetUserMedia := [], console := [''Permission denied'']\<rparr>"
proof -
  have h: "pendingGetUserMedia (fire ClickAskPermission init) = [([], [])]"
    by (simp add: init_def commit_def handlePermission_def react_state_def)
  have c: "console (fire ClickAskPermission init) = []"
    by (simp add: init_def commit_def handlePermission_def react_state_def)
  show ?thesis
    using denied_request_leaves_state [OF h, of "''NotAllowedError''"] h c by simp
qed

subsection \<open>The default selection\<close>

lemma enumerate_then_fields:
  "videoDevices (enumerate_then sel devices s) = filter (\<lambda>device. kind device = videoinput) devices"
  "audioDevices (enumerate_then sel devices s) = filter (\<lambda>device. kind device = audioinput) devices"
  "mediaStream (enumerate_then sel devices s) = mediaStream s"
  "selectedVideoDevice (enumerate_then sel devices s) =
     (case filter (\<lambda>device. kind device = videoinput) devices of
        [] \<Rightarrow> selectedVideoDevice s
      | d # _ \<Rightarrow> if fst sel = [] then deviceId d else fst sel)"
  "selectedAudioDevice (enumerate_then sel devices s) =
     (case filter (\<lambda>device. kind device = audioinput) devices of
        [] \<Rightarrow> selectedAudioDevice s
      | d # _ \<Rightarrow> if snd sel = [] then deviceId d else snd sel)"
  by (simp_all add: enumerate_then_def Let_def split: list.splits)

text \<open>
  What the resolution of an enumeration selects, in terms of the render \<open>c\<close> whose
  effect started it: the lists are the video inputs and the audio inputs among the
  devices, in the order enumerated, and for each kind whose list is not empty the
  selection is the first device of the list when that render had no selection for the
  kind, and the selection of that render otherwise.
\<close>

lemma enumerate_resolved_selection:
  assumes "mediaStream c = Some m"
    and "pendingEnumerate s = []"
    and "s' = fire (EnumerateResolved devices) (devicesEffect c s)"
  shows "videoDevices s' = filter (\<lambda>device. kind device = videoinput) devices
       \<and> audioDevices s' = filter (\<lambda>device. kind device = audioinput) devices
       \<and> selectedVideoDevice s' =
           (case videoDevices s' of
              [] \<Rightarrow> selectedVideoDevice s
            | d # _ \<Rightarrow> if selectedVideoDevice c = [] then deviceId d else selectedVideoDevice c)
       \<and> selectedAudioDevice s' =
           (case audioDevices s' of
              [] \<Rightarrow> selectedAudioDevice s
            | d # _ \<Rightarrow> if selectedAudioDevice c = [] then deviceId d else selectedAudioDevice c)"
proof -
  let ?sel = "(selectedVideoDevice c, selectedAudioDevice c)"
  let ?s0 = "devicesEffect c s"
  have pend: "pendingEnumerate ?s0 = [?sel]"
    using assms(1,2) by (simp add: devicesEffect_def)
  let ?post = "enumerate_then ?sel devices (?s0\<lparr>pendingEnumerate := []\<rparr>)"
  have s': "s' = rerender ?s0 ?post"
    using assms(3) pend by simp
  have keep: "selectedVideoDevice ?s0 = selectedVideoDevice s"
    "selectedAudioDevice ?s0 = selectedAudioDevice s"
    using assms(1) by (simp_all add: devicesEffect_def)
  have ms: "mediaStream ?post = mediaStream ?s0"
    by (simp add: enumerate_then_fields)
  have lists: "videoDevices s' = videoDevices ?post" "audioDevices s' = audioDevices ?post"
    using lists_rerender [OF ms] by (simp_all add: s')
  have sels: "selectedVideoDevice s' = selectedVideoDevice ?post"
    "selectedAudioDevice s' = selectedAudioDevice ?post"
    by (simp_all add: s' rerender_keeps)
  show ?thesis
    by (simp add: lists sels enumerate_then_fields keep split: list.splits)
qed

text \<open>
  C8. Every enumeration partitions the devices into the two lists, selects the first
  device of a kind for which nothing is selected, and preserves a selection already made.
  The code does not preserve it: in the session \<open>enumerating\<close> the second enumeration is
  in flight, started by a render in which \<open>camA\<close> was selected, and both cameras are
  options of the selector. The user chooses \<open>camB\<close>; when the enumeration resolves, its
  callback reads the selection of the render that started it and sets \<open>camA\<close> again.
\<close>

theorem enumeration_overwrites_selection:
  "pendingEnumerate enumerating = [(''camA'', ''mic'')]
   \<and> map deviceId (videoDevices enumerating) = [''camA'', ''camB'']
   \<and> selectedVideoDevice enumerating = ''camA''
   \<and> selectedVideoDevice (fire (ChangeVideo ''camB'') enumerating) = ''camB''
   \<and> pendingEnumerate (fire (ChangeVideo ''camB'') enumerating) = [(''camA'', ''mic'')]
   \<and> map deviceId (videoDevices (fire (EnumerateResolved devs) (fire (ChangeVideo ''camB'') enumerating)))
        = [''camA'', ''camB'']
   \<and> selectedVideoDevice (fire (EnumerateResolved devs) (fire (ChangeVideo ''camB'') enumerating))
        = ''camA''"
  by code_simp

subsection \<open>The countdown\<close>

lemma cd_handlePermission:
  "countdown (handlePermission c s) = countdown s"
  "countdownInterval (handlePermission c s) = countdownInterval s"
  by (simp_all add: handlePermission_def)

lemma cd_getUserMedia_settle:
  "countdown (getUserMedia_settle out s) = countdown s"
  "countdownInterval (getUserMedia_settle out s) = countdownInterval s"
  by (simp_all add: getUserMedia_settle_def handlePermission_then_def handlePermission_catch_def
        Let_def split: list.splits outcome.splits option.splits)

lemma cd_enumerate_then:
  "countdown (enumerate_then sel devices s) = countdown s"
  "countdownInterval (enumerate_then sel devices s) = countdownInterval s"
  by (simp_all add: enumerate_then_def Let_def split: list.splits)

lemma cd_stopRecording:
  "countdown (stopRecording s) = countdown s"
  "countdownInterval (stopRecording s) = countdownInterval s"
  by (simp_all add: stopRecording_def recorder_stop_def Let_def split: option.splits)

lemma cd_handleDeviceChange:
  "countdown (handleDeviceChange c s) = countdown s"
  "countdownInterval (handleDeviceChange c s) = countdownInterval s"
  by (simp_all add: handleDeviceChange_def cd_handlePermission cd_stopRecording stop_tracks_def
        Let_def split: option.splits)

lemma cd_denyMediaPermissions:
  "countdown (denyMediaPermissions c s) = countdown s"
  "countdownInterval (denyMediaPermissions c s) = countdownInterval s"
  by (simp_all add: denyMediaPermissions_explicit)

lemma cd_handleSubmit:
  "countdown (handleSubmit c s) = countdown s"
  "countdownInterval (handleSubmit c s) = countdownInterval s"
  by (simp_all add: handleSubmit_def cd_denyMediaPermissions cd_stopRecording Let_def
        split: option.splits)

lemma cd_startRecording:
  "countdown (startRecording c s) = 3"
  "countdownInterval (startRecording c s) = countdownInterval s"
  by (simp_all add: startRecording_def Let_def split: option.splits)

lemma cd_startTimeout:
  "countdown (startTimeout s) = countdown s"
  "countdownInterval (startTimeout s) = countdownInterval s"
  by (simp_all add: startTimeout_def recorder_start_def Let_def split: option.splits)

lemma countdown_inv_fire: "countdown_inv s \<Longrightarrow> countdown_inv (fire e s)"
proof (cases e)
  case ClickAskPermission
  then show ?thesis if "countdown_inv s"
    using that by (simp add: countdown_inv_def commit_keeps interval_commit cd_handlePermission)
next
  case (GetUserMediaSettled out)
  then show ?thesis if "countdown_inv s"
    using that by (simp add: countdown_inv_def commit_keeps interval_commit cd_getUserMedia_settle)
next
  case (EnumerateResolved devices)
  then show ?thesis if "countdown_inv s"
    using that by (simp add: countdown_inv_def rerender_keeps interval_rerender cd_enumerate_then
        split: list.splits)
next
  case (ChangeVideo v)
  then show ?thesis if "countdown_inv s"
    using that by (simp add: countdown_inv_def commit_keeps interval_commit onChangeVideo_def
        cd_handleDeviceChange)
next
  case (ChangeAudio v)
  then show ?thesis if "countdown_inv s"
    using that by (simp add: countdown_inv_def commit_keeps interval_commit onChangeAudio_def
        cd_handleDeviceChange)
next
  case ClickRecordButton
  then show ?thesis if "countdown_inv s"
    using that by (simp add: countdown_inv_def commit_keeps interval_commit cd_startRecording
        cd_stopRecording)
next
  case ClickSubmit
  then show ?thesis if "countdown_inv s"
    using that by (simp add: countdown_inv_def commit_keeps interval_commit cd_handleSubmit)
next
  case StartTimeoutFired
  then show ?thesis if "countdown_inv s"
    using that by (simp add: countdown_inv_def commit_keeps interval_commit cd_startTimeout)
next
  case ElapsedTick
  then show ?thesis if "countdown_inv s"
    using that by (simp add: countdown_inv_def commit_keeps interval_commit elapsedTick_def)
next
  case CountdownTick
  then show ?thesis if "countdown_inv s"
    using that by (auto simp add: countdown_inv_def commit_keeps interval_commit countdownTick_def)
next
  case (DataAvailable r d)
  then show ?thesis if "countdown_inv s"
    using that by (simp add: countdown_inv_def ondataavailable_def)
next
  case (RecorderStopped r)
  then show ?thesis if "countdown_inv s"
    using that by (simp add: countdown_inv_def rerender_keeps interval_rerender onstop_def Let_def)
next
  case (AnimationFrame a dataArray)
  then show ?thesis if "countdown_inv s"
    using that by (simp add: countdown_inv_def commit_keeps interval_commit updateVolume_def Let_def)
qed

lemma countdown_inv_run: "countdown_inv s \<Longrightarrow> countdown_inv (run es s)"
  by (induction es arbitrary: s) (simp_all add: countdown_inv_fire)

text \<open>
  C9. The countdown is never negative: in every state that a sequence of events reaches
  from the mounted component it is at least 0, and the one-second interval that
  decrements it is set exactly while it is positive, so that the tick halts at 0.
\<close>

theorem countdown_never_negative:
  "0 \<le> countdown (run es init)
   \<and> countdownInterval (run es init) = (0 < countdown (run es init))"
proof -
  have "countdown_inv init"
    by (simp add: countdown_inv_def init_def)
  then have "countdown_inv (run es init)"
    by (rule countdown_inv_run)
  then show ?thesis
    by (simp add: countdown_inv_def)
qed


end
